theory Spec2Isabelle
  imports Complex_Main "HOL-Library.Sublist"
begin

section \<open>Conventions of the embedding\<close>

text \<open>
  The development follows the Python sources \<^verbatim>\<open>similarity_calculator.py\<close>,
  \<^verbatim>\<open>data_cleaner.py\<close> and \<^verbatim>\<open>vectorizer.py\<close>.

  \<^item> A Python \<^verbatim>\<open>str\<close> is a list of Unicode code points (\<open>nat\<close>), so that \<^verbatim>\<open>len\<close> counts
    code points as Python does.
  \<^item> A numpy \<^verbatim>\<open>float64\<close> is an exact real number: rounding, overflow, infinities and NaN are
    outside the model. A vector is a \<open>real list\<close>, a matrix a list of rows.
  \<^item> A raised exception is the \<open>Inl\<close> branch of a sum type.
  \<^item> File input and output are left out: a function that loads a JSON file takes the parsed
    content, a function that dumps one returns the value it dumps.
\<close>

type_synonym pystr = "nat list"

definition py :: "string \<Rightarrow> pystr" where
  "py s = map of_char s"

datatype error = ValueError | ZeroDivisionError

text \<open>
  A function that may raise, run over the elements of a list in order: the first exception
  ends the run.
\<close>

fun traverse :: "('a \<Rightarrow> error + 'b) \<Rightarrow> 'a list \<Rightarrow> error + 'b list" where
  "traverse f [] = Inr []"
| "traverse f (x # xs) =
     (case f x of
        Inl e \<Rightarrow> Inl e
      | Inr y \<Rightarrow> (case traverse f xs of Inl e \<Rightarrow> Inl e | Inr ys \<Rightarrow> Inr (y # ys)))"

section \<open>Python string operations\<close>

text \<open>
  The code points that \<^verbatim>\<open>str.strip()\<close>, \<^verbatim>\<open>str.split()\<close> and the regular expression \<^verbatim>\<open>\s\<close>
  treat as whitespace.
\<close>

definition is_space :: "nat \<Rightarrow> bool" where
  "is_space c =
     ((9 \<le> c \<and> c \<le> 13) \<or> (28 \<le> c \<and> c \<le> 32) \<or> c = 133 \<or> c = 160 \<or> c = 5760
      \<or> (8192 \<le> c \<and> c \<le> 8202) \<or> c = 8232 \<or> c = 8233 \<or> c = 8239 \<or> c = 8287
      \<or> c = 12288)"

text \<open>\<^verbatim>\<open>s.strip()\<close>\<close>

definition strip :: "pystr \<Rightarrow> pystr" where
  "strip s = rev (dropWhile is_space (rev (dropWhile is_space s)))"

text \<open>\<^verbatim>\<open>s.split(sep)\<close> for a separator of one character: empty pieces are kept.\<close>

fun split_on :: "nat \<Rightarrow> pystr \<Rightarrow> pystr list" where
  "split_on sep [] = [[]]"
| "split_on sep (c # cs) =
     (if c = sep then [] # split_on sep cs
      else (case split_on sep cs of
              [] \<Rightarrow> [[c]]
            | w # ws \<Rightarrow> (c # w) # ws))"

text \<open>\<^verbatim>\<open>s.split()\<close>: the maximal runs of characters that are not whitespace.\<close>

fun split_ws_from :: "pystr \<Rightarrow> pystr \<Rightarrow> pystr list" where
  "split_ws_from cur [] = (if cur = [] then [] else [cur])"
| "split_ws_from cur (c # cs) =
     (if is_space c then (if cur = [] then split_ws_from [] cs else cur # split_ws_from [] cs)
      else split_ws_from (cur @ [c]) cs)"

definition split_ws :: "pystr \<Rightarrow> pystr list" where
  "split_ws s = split_ws_from [] s"

text \<open>\<^verbatim>\<open>" ".join(ws)\<close>\<close>

fun join_space :: "pystr list \<Rightarrow> pystr" where
  "join_space [] = []"
| "join_space [w] = w"
| "join_space (w # ws) = w @ 32 # join_space ws"

section \<open>data\_cleaner.py: segment\_text\<close>

text \<open>The sentence terminators \<^verbatim>\<open>U+3002\<close>, \<^verbatim>\<open>U+FF1F\<close>, \<^verbatim>\<open>U+FF01\<close> and \<^verbatim>\<open>U+FF1B\<close>.\<close>

definition is_terminal :: "nat \<Rightarrow> bool" where
  "is_terminal c = (c = 12290 \<or> c = 65311 \<or> c = 65281 \<or> c = 65307)"

text \<open>\<^verbatim>\<open>[p.strip() for p in text.split('\n') if p.strip()]\<close>\<close>

definition paragraphs :: "pystr \<Rightarrow> pystr list" where
  "paragraphs text = map strip (filter (\<lambda>p. strip p \<noteq> []) (split_on 10 text))"

text \<open>
  The scan of a long paragraph. \<open>cur\<close> is \<^verbatim>\<open>current_segment\<close>; the result is the list
  \<^verbatim>\<open>punctuation_segments\<close>. The test \<^verbatim>\<open>len(current_segment) >= max_length * 0.3\<close> compares an
  integer with a product of floats; for integers it is \<open>3 * max_length \<le> 10 * len\<close>
  (for every \<open>max_length\<close> below \<open>10\<^sup>1\<^sup>4\<close> in absolute value the rounding of the product does not
  change the outcome).
\<close>

fun punct_scan :: "int \<Rightarrow> pystr \<Rightarrow> pystr \<Rightarrow> pystr list" where
  "punct_scan max_length cur [] = (if cur \<noteq> [] then [strip cur] else [])"
| "punct_scan max_length cur (c # cs) =
     (if is_terminal c \<and> 3 * max_length \<le> 10 * int (length (cur @ [c]))
      then strip (cur @ [c]) # punct_scan max_length [] cs
      else punct_scan max_length (cur @ [c]) cs)"

text \<open>
  The packing of the words of a long chunk. \<open>frag\<close> is \<^verbatim>\<open>current_fragment\<close>, \<open>len\<close> is
  \<^verbatim>\<open>current_length\<close>; the result is what the loop and the final flush append to
  \<^verbatim>\<open>segmented\<close>.
\<close>

fun pack_words :: "int \<Rightarrow> pystr list \<Rightarrow> int \<Rightarrow> pystr list \<Rightarrow> pystr list" where
  "pack_words max_length frag len [] = (if frag \<noteq> [] then [join_space frag] else [])"
| "pack_words max_length frag len (w # ws) =
     (if len + int (length w) + 1 > max_length \<and> frag \<noteq> []
      then join_space frag # pack_words max_length [w] (int (length w) + 1) ws
      else pack_words max_length (frag @ [w]) (len + int (length w) + 1) ws)"

definition segment_chunk :: "int \<Rightarrow> pystr \<Rightarrow> pystr list" where
  "segment_chunk max_length seg =
     (if int (length seg) \<le> max_length then [seg]
      else pack_words max_length [] 0 (split_ws seg))"

definition segment_paragraph :: "int \<Rightarrow> pystr \<Rightarrow> pystr list" where
  "segment_paragraph max_length para =
     (if int (length para) \<le> max_length then [para]
      else concat (map (segment_chunk max_length) (punct_scan max_length [] para)))"

definition segment_text :: "pystr \<Rightarrow> int \<Rightarrow> pystr list" where
  "segment_text text max_length = concat (map (segment_paragraph max_length) (paragraphs text))"

text \<open>The characters of a string that are not whitespace, in order.\<close>

definition non_space :: "pystr \<Rightarrow> pystr" where
  "non_space s = filter (\<lambda>c. \<not> is_space c) s"

text \<open>A string without whitespace: a token, or a part of one.\<close>

definition spaceless :: "pystr \<Rightarrow> bool" where
  "spaceless s = (\<forall>c \<in> set s. \<not> is_space c)"

section \<open>data\_cleaner.py: clean\_html\<close>





























text \<open>Helper notions for the properties of \<^verbatim>\<open>clean_html\<close>.\<close>









section \<open>data\_cleaner.py: clean\_paper\_data\<close>











section \<open>similarity\_calculator.py\<close>

subsection \<open>Vector arithmetic\<close>

definition dot :: "real list \<Rightarrow> real list \<Rightarrow> real" where
  "dot a b = sum_list (map2 (*) a b)"

definition l2_norm :: "real list \<Rightarrow> real" where
  "l2_norm a = sqrt (dot a a)"

text \<open>
  Modelled from the spec: \<^verbatim>\<open>sklearn.metrics.pairwise.cosine_similarity\<close>, imported by
  \<^verbatim>\<open>similarity_calculator.py\<close>, is library code that is not part of the sources. The spec
  gives its entries as \<open>dot(A\<^sub>i, B\<^sub>j) / (\<parallel>A\<^sub>i\<parallel> \<sqdot> \<parallel>B\<^sub>j\<parallel>)\<close>, with a zero-norm vector on either
  side forcing the entry to \<open>0\<close>.
\<close>

definition cosine_similarity :: "real list \<Rightarrow> real list \<Rightarrow> real" where
  "cosine_similarity a b =
     (if l2_norm a = 0 \<or> l2_norm b = 0 then 0
      else dot a b / (l2_norm a * l2_norm b))"

text \<open>\<^verbatim>\<open>euclidean_distance\<close> of \<^verbatim>\<open>vectorizer.py\<close>: \<^verbatim>\<open>np.sqrt(np.sum((v1 - v2) ** 2))\<close>.\<close>

definition euclidean_distance :: "real list \<Rightarrow> real list \<Rightarrow> real" where
  "euclidean_distance v1 v2 = sqrt (sum_list (map (\<lambda>d. d\<^sup>2) (map2 (-) v1 v2)))"

text \<open>
  Division with the zero divisor as an explicit error, so that "no division by zero" is a
  statement about the model.
\<close>

definition py_div :: "real \<Rightarrow> real \<Rightarrow> error + real" where
  "py_div x y = (if y = 0 then Inl ZeroDivisionError else Inr (x / y))"

text \<open>
  The library refuses operands of different dimension and operands without features with a
  \<^verbatim>\<open>ValueError\<close>.
\<close>

definition fused_similarity :: "real list \<Rightarrow> real list \<Rightarrow> real \<Rightarrow> error + real" where
  "fused_similarity v_a v_b w_cos =
     (if length v_a \<noteq> length v_b \<or> length v_a = 0 then Inl ValueError
      else
        let cos_sim = cosine_similarity v_a v_b;
            euc_dist = euclidean_distance v_a v_b
        in case py_div 1 (1 + euc_dist) of
             Inl e \<Rightarrow> Inl e
           | Inr euc_sim \<Rightarrow> Inr (w_cos * cos_sim + (1 - w_cos) * euc_sim))"

subsection \<open>The matrix path\<close>

text \<open>
  \<^verbatim>\<open>np.array(vectors)\<close> and the library's input check: all rows of both matrices have one
  common dimension, which is not zero.
\<close>

definition shape_ok :: "real list list \<Rightarrow> real list list \<Rightarrow> bool" where
  "shape_ok A B =
     (case A of
        [] \<Rightarrow> False
      | a # _ \<Rightarrow> B \<noteq> [] \<and> 0 < length a \<and> list_all (\<lambda>v. length v = length a) (A @ B))"

definition cos_sim_matrix :: "real list list \<Rightarrow> real list list \<Rightarrow> real list list" where
  "cos_sim_matrix A B = map (\<lambda>a. map (\<lambda>b. cosine_similarity a b) B) A"

text \<open>\<^verbatim>\<open>diff = matrix_a[:, np.newaxis, :] - matrix_b[np.newaxis, :, :]\<close>\<close>

definition diff_tensor :: "real list list \<Rightarrow> real list list \<Rightarrow> real list list list" where
  "diff_tensor A B = map (\<lambda>a. map (\<lambda>b. map2 (-) a b) B) A"

text \<open>\<^verbatim>\<open>squared_diff = np.sum(diff**2, axis=-1)\<close>\<close>

definition squared_diff :: "real list list list \<Rightarrow> real list list" where
  "squared_diff T = map (map (\<lambda>d. sum_list (map (\<lambda>x. x\<^sup>2) d))) T"

definition euc_dist_matrix :: "real list list \<Rightarrow> real list list \<Rightarrow> real list list" where
  "euc_dist_matrix A B = map (map sqrt) (squared_diff (diff_tensor A B))"

text \<open>\<^verbatim>\<open>euc_sim_matrix = 1 / (1 + euc_dist_matrix)\<close>\<close>

definition euc_sim_matrix :: "real list list \<Rightarrow> real list list \<Rightarrow> error + real list list" where
  "euc_sim_matrix A B = traverse (traverse (\<lambda>d. py_div 1 (1 + d))) (euc_dist_matrix A B)"

text \<open>\<^verbatim>\<open>fused = fusion_weight * cos_sim_matrix + (1 - fusion_weight) * euc_sim_matrix\<close>\<close>

definition fused_sim_matrix ::
  "real \<Rightarrow> real list list \<Rightarrow> real list list \<Rightarrow> error + real list list" where
  "fused_sim_matrix fusion_weight A B =
     (if \<not> shape_ok A B then Inl ValueError
      else case euc_sim_matrix A B of
             Inl e \<Rightarrow> Inl e
           | Inr U \<Rightarrow>
               Inr (map2 (map2 (\<lambda>c u. fusion_weight * c + (1 - fusion_weight) * u))
                      (cos_sim_matrix A B) U))"

subsection \<open>Records of the interchange formats\<close>

text \<open>
  A question of a vectorised paper. \<open>q_vector = None\<close> stands for a missing \<^verbatim>\<open>"vector"\<close>
  key as well as for \<^verbatim>\<open>null\<close>; the other three keys are read unconditionally by the code,
  so the type makes them present.
\<close>

record question =
  q_id :: pystr
  q_type :: pystr
  q_text :: pystr
  q_vector :: "real list option"

record paper =
  model :: pystr
  questions :: "question list"

record info =
  i_id :: pystr
  i_type :: pystr
  i_text :: pystr

record similar_pair =
  p_paper_a :: info
  p_paper_b :: info
  p_similarity :: real

text \<open>
  The returned dictionary. \<open>r_deduplicate = None\<close> means that the dictionary has no
  \<^verbatim>\<open>"deduplicate"\<close> key.
\<close>

record comparison =
  r_paper_a :: pystr
  r_paper_b :: pystr
  r_method :: pystr
  r_threshold :: real
  r_type_sensitive :: bool
  r_fusion_weight :: real
  r_total_questions_a :: nat
  r_total_questions_b :: nat
  r_total_pairs :: nat
  r_deduplicate :: "bool option"
  r_similar_pairs :: "similar_pair list"

subsection \<open>calculate\_similarity\<close>

definition mk_info :: "question \<Rightarrow> info" where
  "mk_info q = \<lparr>i_id = q_id q, i_type = q_type q, i_text = q_text q\<rparr>"

text \<open>The two collection loops: questions without a vector are skipped.\<close>

fun collect :: "question list \<Rightarrow> real list list \<times> info list" where
  "collect [] = ([], [])"
| "collect (q # qs) =
     (case q_vector q of
        None \<Rightarrow> collect qs
      | Some v \<Rightarrow> (v # fst (collect qs), mk_info q # snd (collect qs)))"

definition mk_pair :: "info list \<Rightarrow> info list \<Rightarrow> real list list \<Rightarrow> nat \<times> nat \<Rightarrow> similar_pair" where
  "mk_pair info_a info_b M ij =
     \<lparr>p_paper_a = info_a ! fst ij, p_paper_b = info_b ! snd ij,
      p_similarity = M ! fst ij ! snd ij\<rparr>"

text \<open>The double loop over \<^verbatim>\<open>range(len(info_a))\<close> and \<^verbatim>\<open>range(len(info_b))\<close>.\<close>

definition inner_loop ::
  "bool \<Rightarrow> real \<Rightarrow> info list \<Rightarrow> info list \<Rightarrow> real list list \<Rightarrow> nat \<Rightarrow> similar_pair list" where
  "inner_loop type_sensitive threshold info_a info_b M i =
     concat (map (\<lambda>j.
        if type_sensitive \<and> i_type (info_a ! i) \<noteq> i_type (info_b ! j) then []
        else if M ! i ! j \<ge> threshold then [mk_pair info_a info_b M (i, j)]
        else []) [0..<length info_b])"

definition candidate_pairs ::
  "bool \<Rightarrow> real \<Rightarrow> info list \<Rightarrow> info list \<Rightarrow> real list list \<Rightarrow> similar_pair list" where
  "candidate_pairs type_sensitive threshold info_a info_b M =
     concat (map (inner_loop type_sensitive threshold info_a info_b M) [0..<length info_a])"

text \<open>
  \<^verbatim>\<open>list.sort(key=..., reverse=True)\<close>: a stable sort; with \<^verbatim>\<open>reverse=True\<close> the list is
  reversed, sorted stably in ascending order and reversed again.
\<close>

definition sort_reverse :: "('a \<Rightarrow> real) \<Rightarrow> 'a list \<Rightarrow> 'a list" where
  "sort_reverse key xs = rev (sort_key key (rev xs))"

definition calculate_similarity ::
  "pystr \<Rightarrow> paper \<Rightarrow> pystr \<Rightarrow> paper \<Rightarrow> real \<Rightarrow> bool \<Rightarrow> real \<Rightarrow> bool \<Rightarrow> error + comparison" where
  "calculate_similarity paper_a_file paper_a paper_b_file paper_b
       threshold type_sensitive fusion_weight deduplicate =
     (let (vectors_a, info_a) = collect (questions paper_a);
          (vectors_b, info_b) = collect (questions paper_b)
      in if vectors_a = [] \<or> vectors_b = [] then
           Inr \<lparr>r_paper_a = paper_a_file, r_paper_b = paper_b_file, r_method = py ''fused'',
                r_threshold = threshold, r_type_sensitive = type_sensitive,
                r_fusion_weight = fusion_weight,
                r_total_questions_a = length vectors_a, r_total_questions_b = length vectors_b,
                r_total_pairs = 0, r_deduplicate = None, r_similar_pairs = []\<rparr>
         else
           case fused_sim_matrix fusion_weight vectors_a vectors_b of
             Inl e \<Rightarrow> Inl e
           | Inr M \<Rightarrow>
               let similar_pairs =
                     sort_reverse p_similarity
                       (candidate_pairs type_sensitive threshold info_a info_b M)
               in Inr \<lparr>r_paper_a = paper_a_file, r_paper_b = paper_b_file,
                       r_method = py ''fused'',
                       r_threshold = threshold, r_type_sensitive = type_sensitive,
                       r_fusion_weight = fusion_weight,
                       r_total_questions_a = length vectors_a,
                       r_total_questions_b = length vectors_b,
                       r_total_pairs = length similar_pairs, r_deduplicate = Some deduplicate,
                       r_similar_pairs = similar_pairs\<rparr>)"

text \<open>The value of one entry of the fused matrix, as both paths compute it.\<close>

definition fused_entry :: "real \<Rightarrow> real list \<Rightarrow> real list \<Rightarrow> real" where
  "fused_entry w a b = w * cosine_similarity a b + (1 - w) * (1 / (1 + euclidean_distance a b))"

text \<open>The vectors and the descriptions that \<^verbatim>\<open>calculate_similarity\<close> keeps of a paper.\<close>

definition paper_vectors :: "paper \<Rightarrow> real list list" where
  "paper_vectors p = fst (collect (questions p))"

definition paper_info :: "paper \<Rightarrow> info list" where
  "paper_info p = snd (collect (questions p))"

text \<open>
  The index pairs at which the double loop appends a pair, in the order of the iteration:
  \<open>List.product\<close> enumerates \<open>(i, j)\<close> with \<open>i\<close> outermost.
\<close>

definition emitted_indices ::
  "bool \<Rightarrow> real \<Rightarrow> info list \<Rightarrow> info list \<Rightarrow> real list list \<Rightarrow> (nat \<times> nat) list" where
  "emitted_indices type_sensitive threshold info_a info_b M =
     filter (\<lambda>ij. \<not> (type_sensitive \<and> i_type (info_a ! fst ij) \<noteq> i_type (info_b ! snd ij))
                 \<and> M ! fst ij ! snd ij \<ge> threshold)
       (List.product [0..<length info_a] [0..<length info_b])"

text \<open>
  The order of the report: a higher score first, and among equal scores the pair that the
  loops reach first.
\<close>

definition ranks_before :: "real list list \<Rightarrow> nat \<times> nat \<Rightarrow> nat \<times> nat \<Rightarrow> bool" where
  "ranks_before M ij kl =
     (M ! fst ij ! snd ij > M ! fst kl ! snd kl
      \<or> (M ! fst ij ! snd ij = M ! fst kl ! snd kl
         \<and> (fst ij < fst kl \<or> (fst ij = fst kl \<and> snd ij < snd kl))))"

subsection \<open>Sample inputs\<close>

definition ex_question :: "string \<Rightarrow> string \<Rightarrow> real list option \<Rightarrow> question" where
  "ex_question n t v = \<lparr>q_id = py n, q_type = py t, q_text = py ''What is 2+2?'', q_vector = v\<rparr>"

definition ex_info :: "string \<Rightarrow> string \<Rightarrow> info" where
  "ex_info n t = \<lparr>i_id = py n, i_type = py t, i_text = py ''What is 2+2?''\<rparr>"

definition ex_paper :: "question list \<Rightarrow> paper" where
  "ex_paper qs = \<lparr>model = py ''sentence-bert'', questions = qs\<rparr>"

definition ex_result ::
  "real \<Rightarrow> bool \<Rightarrow> nat \<Rightarrow> nat \<Rightarrow> bool option \<Rightarrow> similar_pair list \<Rightarrow> comparison" where
  "ex_result th ts n m dd ps =
     \<lparr>r_paper_a = py ''a.json'', r_paper_b = py ''b.json'', r_method = py ''fused'',
      r_threshold = th, r_type_sensitive = ts, r_fusion_weight = 3 / 5,
      r_total_questions_a = n, r_total_questions_b = m,
      r_total_pairs = length ps, r_deduplicate = dd, r_similar_pairs = ps\<rparr>"

section \<open>Properties of the similarity computation\<close>

lemma length_collect: "length (fst (collect qs)) = length (snd (collect qs))"
  by (induction qs) (auto split: option.splits)

lemma sum_squares_nonneg: "0 \<le> sum_list (map (\<lambda>d::real. d\<^sup>2) ds)"
  by (induction ds) auto

lemma euclidean_distance_nonneg: "0 \<le> euclidean_distance a b"
  unfolding euclidean_distance_def by (intro real_sqrt_ge_zero sum_squares_nonneg)

lemma traverse_total:
  "(\<And>x. x \<in> set xs \<Longrightarrow> f x = Inr (g x)) \<Longrightarrow> traverse f xs = Inr (map g xs)"
  by (induction xs) auto

lemma euc_dist_matrix_rows:
  "euc_dist_matrix A B = map (\<lambda>a. map (\<lambda>b. euclidean_distance a b) B) A"
  by (simp add: euc_dist_matrix_def squared_diff_def diff_tensor_def euclidean_distance_def comp_def)

lemma py_div_dist: "0 \<le> d \<Longrightarrow> py_div 1 (1 + d) = Inr (1 / (1 + d))"
  by (simp add: py_div_def)

lemma euc_sim_matrix_value:
  "euc_sim_matrix A B = Inr (map (\<lambda>a. map (\<lambda>b. 1 / (1 + euclidean_distance a b)) B) A)"
proof -
  have row: "traverse (\<lambda>d. py_div 1 (1 + d)) (map (\<lambda>b. euclidean_distance a b) B)
      = Inr (map (\<lambda>d. 1 / (1 + d)) (map (\<lambda>b. euclidean_distance a b) B))" for a
    by (rule traverse_total) (auto simp: py_div_dist euclidean_distance_nonneg)
  have "traverse (traverse (\<lambda>d. py_div 1 (1 + d))) (map (\<lambda>a. map (\<lambda>b. euclidean_distance a b) B) A)
      = Inr (map (map (\<lambda>d. 1 / (1 + d))) (map (\<lambda>a. map (\<lambda>b. euclidean_distance a b) B) A))"
    by (rule traverse_total) (auto simp: row)
  then show ?thesis
    by (simp add: euc_sim_matrix_def euc_dist_matrix_rows comp_def)
qed

lemma map2_map_map: "map2 f (map g xs) (map h xs) = map (\<lambda>x. f (g x) (h x)) xs"
  by (induction xs) auto

lemma fused_sim_matrix_value:
  "fused_sim_matrix w A B =
     (if shape_ok A B then Inr (map (\<lambda>a. map (\<lambda>b. fused_entry w a b) B) A) else Inl ValueError)"
  by (simp add: fused_sim_matrix_def euc_sim_matrix_value cos_sim_matrix_def map2_map_map fused_entry_def)

lemma fused_similarity_value:
  "fused_similarity a b w =
     (if length a \<noteq> length b \<or> length a = 0 then Inl ValueError else Inr (fused_entry w a b))"
  by (simp add: fused_similarity_def py_div_dist euclidean_distance_nonneg fused_entry_def Let_def)

lemma length_paper_info: "length (paper_info p) = length (paper_vectors p)"
  by (simp add: paper_info_def paper_vectors_def length_collect)

lemma length_paper_vectors:
  "length (paper_vectors p) = length (filter (\<lambda>q. q_vector q \<noteq> None) (questions p))"
proof -
  have "length (fst (collect qs)) = length (filter (\<lambda>q. q_vector q \<noteq> None) qs)" for qs
    by (induction qs) (auto split: option.splits)
  then show ?thesis by (simp add: paper_vectors_def)
qed

lemma calculate_similarity_empty:
  assumes "paper_vectors pa = [] \<or> paper_vectors pb = []"
  shows "calculate_similarity fa pa fb pb th ts w dd =
     Inr \<lparr>r_paper_a = fa, r_paper_b = fb, r_method = py ''fused'',
          r_threshold = th, r_type_sensitive = ts, r_fusion_weight = w,
          r_total_questions_a = length (paper_vectors pa),
          r_total_questions_b = length (paper_vectors pb),
          r_total_pairs = 0, r_deduplicate = None, r_similar_pairs = []\<rparr>"
  using assms
  by (auto simp: calculate_similarity_def paper_vectors_def split: prod.splits)

lemma calculate_similarity_full:
  assumes "paper_vectors pa \<noteq> []" "paper_vectors pb \<noteq> []"
  shows "calculate_similarity fa pa fb pb th ts w dd =
     (case fused_sim_matrix w (paper_vectors pa) (paper_vectors pb) of
        Inl e \<Rightarrow> Inl e
      | Inr M \<Rightarrow>
          Inr \<lparr>r_paper_a = fa, r_paper_b = fb, r_method = py ''fused'',
               r_threshold = th, r_type_sensitive = ts, r_fusion_weight = w,
               r_total_questions_a = length (paper_vectors pa),
               r_total_questions_b = length (paper_vectors pb),
               r_total_pairs = length (candidate_pairs ts th (paper_info pa) (paper_info pb) M),
               r_deduplicate = Some dd,
               r_similar_pairs = sort_reverse p_similarity
                 (candidate_pairs ts th (paper_info pa) (paper_info pb) M)\<rparr>)"
  using assms
  by (auto simp: calculate_similarity_def paper_vectors_def paper_info_def sort_reverse_def Let_def
           split: prod.splits sum.splits)

lemma calculate_similarity_pairs:
  assumes "calculate_similarity fa pa fb pb th ts w dd = Inr r"
  shows "r_similar_pairs r = [] \<or>
     (\<exists>M. fused_sim_matrix w (paper_vectors pa) (paper_vectors pb) = Inr M \<and>
          r_similar_pairs r = sort_reverse p_similarity
             (candidate_pairs ts th (paper_info pa) (paper_info pb) M))"
proof (cases "paper_vectors pa = [] \<or> paper_vectors pb = []")
  case True
  from calculate_similarity_empty[OF True, of fa fb th ts w dd] assms show ?thesis by auto
next
  case False
  then have ne: "paper_vectors pa \<noteq> []" "paper_vectors pb \<noteq> []" by auto
  from calculate_similarity_full[OF ne, of fa fb th ts w dd] assms show ?thesis
    by (auto split: sum.splits)
qed

lemma concat_map_if_singleton:
  "concat (map (\<lambda>x. if Q x then [g x] else []) xs) = map g (filter Q xs)"
  by (induction xs) auto

lemma inner_loop_indices:
  "inner_loop ts th ia ib M i =
     map (mk_pair ia ib M)
       (filter (\<lambda>ij. \<not> (ts \<and> i_type (ia ! fst ij) \<noteq> i_type (ib ! snd ij)) \<and> M ! fst ij ! snd ij \<ge> th)
          (map (Pair i) [0..<length ib]))"
proof -
  have "inner_loop ts th ia ib M i =
      concat (map (\<lambda>j. if \<not> (ts \<and> i_type (ia ! i) \<noteq> i_type (ib ! j)) \<and> M ! i ! j \<ge> th
                       then [mk_pair ia ib M (i, j)] else []) [0..<length ib])"
    unfolding inner_loop_def by (intro arg_cong[where f=concat] map_cong) auto
  also have "\<dots> = map (\<lambda>j. mk_pair ia ib M (i, j))
       (filter (\<lambda>j. \<not> (ts \<and> i_type (ia ! i) \<noteq> i_type (ib ! j)) \<and> M ! i ! j \<ge> th) [0..<length ib])"
    by (rule concat_map_if_singleton)
  also have "\<dots> = map (mk_pair ia ib M)
       (filter (\<lambda>ij. \<not> (ts \<and> i_type (ia ! fst ij) \<noteq> i_type (ib ! snd ij)) \<and> M ! fst ij ! snd ij \<ge> th)
          (map (Pair i) [0..<length ib]))"
    by (simp add: filter_map comp_def)
  finally show ?thesis .
qed

lemma candidate_pairs_indices:
  "candidate_pairs ts th ia ib M = map (mk_pair ia ib M) (emitted_indices ts th ia ib M)"
proof -
  have "inner_loop ts th ia ib M = (\<lambda>i. map (mk_pair ia ib M)
       (filter (\<lambda>ij. \<not> (ts \<and> i_type (ia ! fst ij) \<noteq> i_type (ib ! snd ij)) \<and> M ! fst ij ! snd ij \<ge> th)
          (map (Pair i) [0..<length ib])))"
    by (rule ext) (rule inner_loop_indices)
  then show ?thesis
    by (simp add: candidate_pairs_def emitted_indices_def List.product_concat_map
        filter_concat map_concat comp_def)
qed

lemma sorted_wrt_product:
  assumes "sorted_wrt (<) xs" "sorted_wrt (<) ys"
  shows "sorted_wrt (\<lambda>ij kl. fst ij < fst kl \<or> (fst ij = fst kl \<and> snd ij < snd kl))
           (List.product (xs::nat list) (ys::nat list))"
  using assms
  by (induction xs) (auto simp: sorted_wrt_append sorted_wrt_map)

lemma emitted_indices_sorted:
  "sorted_wrt (\<lambda>ij kl. fst ij < fst kl \<or> (fst ij = fst kl \<and> snd ij < snd kl))
     (emitted_indices ts th ia ib M)"
  unfolding emitted_indices_def
  by (intro sorted_wrt_filter sorted_wrt_product) simp_all

lemma set_emitted_indices:
  "(i, j) \<in> set (emitted_indices ts th ia ib M) \<longleftrightarrow>
     i < length ia \<and> j < length ib \<and> \<not> (ts \<and> i_type (ia ! i) \<noteq> i_type (ib ! j)) \<and> th \<le> M ! i ! j"
  by (auto simp: emitted_indices_def)

lemma insort_key_map:
  "insort_key f (g x) (map g ys) = map g (insort_key (\<lambda>x. f (g x)) x ys)"
  by (induction ys) auto

lemma sort_key_map: "sort_key f (map g xs) = map g (sort_key (\<lambda>x. f (g x)) xs)"
  by (induction xs) (auto simp: insort_key_map)

lemma sort_reverse_map: "sort_reverse f (map g xs) = map g (sort_reverse (\<lambda>x. f (g x)) xs)"
  by (simp add: sort_reverse_def rev_map sort_key_map)

lemma set_sort_reverse: "set (sort_reverse f xs) = set xs"
  by (simp add: sort_reverse_def)

lemma sort_reverse_descending: "sorted_wrt (\<lambda>a b. f a \<ge> f b) (sort_reverse f xs)"
proof -
  have "sorted (map f (sort_key f (rev xs)))" by simp
  then have "sorted_wrt (\<lambda>a b. f a \<le> f b) (sort_key f (rev xs))"
    by (simp add: sorted_map)
  then show ?thesis
    by (simp add: sort_reverse_def sorted_wrt_rev)
qed

lemma sort_reverse_stable:
  "filter (\<lambda>y. f y = k) (sort_reverse f xs) = filter (\<lambda>y. f y = k) xs"
  by (simp add: sort_reverse_def rev_filter[symmetric] sort_key_stable)

lemma stable_refines:
  assumes "sorted_wrt (\<lambda>a b. f a \<ge> f b) xs"
      and "\<And>k. sorted_wrt R (filter (\<lambda>y. f y = k) xs)"
  shows "sorted_wrt (\<lambda>a b. (f a :: real) > f b \<or> (f a = f b \<and> R a b)) xs"
  using assms
proof (induction xs)
  case Nil
  show ?case by simp
next
  case (Cons x xs)
  have tl: "sorted_wrt R (filter (\<lambda>y. f y = k) xs)" for k
    using Cons.prems(2)[of k] by (cases "f x = k") auto
  have hd: "f x > f y \<or> (f x = f y \<and> R x y)" if "y \<in> set xs" for y
  proof (cases "f x = f y")
    case True
    from Cons.prems(2)[of "f x"] that True show ?thesis by auto
  next
    case False
    with Cons.prems(1) that show ?thesis by auto
  qed
  from Cons.IH[OF _ tl] Cons.prems(1) hd show ?case by auto
qed

lemmas ex_defs = ex_question_def ex_info_def ex_paper_def ex_result_def

lemmas sim_eval = calculate_similarity_def fused_sim_matrix_def shape_ok_def euc_sim_matrix_def
  euc_dist_matrix_def squared_diff_def diff_tensor_def cos_sim_matrix_def cosine_similarity_def
  l2_norm_def dot_def py_div_def candidate_pairs_def inner_loop_def mk_pair_def mk_info_def
  sort_reverse_def

lemma cos_sim_matrix_nth:
  "i < length A \<Longrightarrow> j < length B \<Longrightarrow> cos_sim_matrix A B ! i ! j = cosine_similarity (A ! i) (B ! j)"
  by (simp add: cos_sim_matrix_def)

text \<open>
  Claim C1. When either vector of a pair has zero norm, the cosine entry of the matrix path and
  the cosine component of the scalar path are \<open>0\<close>, neither path ends in a division by
  zero, and on well-shaped matrices the fused entry is the Euclidean part alone.
\<close>

theorem zero_norm_cosine_guard:
  assumes "i < length A" and "j < length B"
      and "l2_norm (A ! i) = 0 \<or> l2_norm (B ! j) = 0"
  shows "cos_sim_matrix A B ! i ! j = 0
       \<and> cosine_similarity (A ! i) (B ! j) = 0
       \<and> fused_sim_matrix w A B \<noteq> Inl ZeroDivisionError
       \<and> fused_similarity (A ! i) (B ! j) w \<noteq> Inl ZeroDivisionError
       \<and> (shape_ok A B \<longrightarrow>
            (\<exists>M. fused_sim_matrix w A B = Inr M
               \<and> M ! i ! j = (1 - w) * (1 / (1 + euclidean_distance (A ! i) (B ! j)))))"
proof -
  have c: "cosine_similarity (A ! i) (B ! j) = 0"
    using assms(3) by (simp add: cosine_similarity_def)
  have m: "cos_sim_matrix A B ! i ! j = 0"
    using assms(1,2) c by (simp add: cos_sim_matrix_nth)
  have e1: "fused_sim_matrix w A B \<noteq> Inl ZeroDivisionError"
    by (simp add: fused_sim_matrix_value)
  have e2: "fused_similarity (A ! i) (B ! j) w \<noteq> Inl ZeroDivisionError"
    by (simp add: fused_similarity_value)
  have v: "shape_ok A B \<longrightarrow>
            (\<exists>M. fused_sim_matrix w A B = Inr M
               \<and> M ! i ! j = (1 - w) * (1 / (1 + euclidean_distance (A ! i) (B ! j))))"
    using assms(1,2) c by (simp add: fused_sim_matrix_value fused_entry_def)
  from c m e1 e2 v show ?thesis by blast
qed

theorem zero_norm_cosine_guard_witness:
  "(0::nat) < length [[0, 0 :: real]] \<and> (0::nat) < length [[1, 0 :: real]]
   \<and> l2_norm ([[0, 0]] ! 0) = 0
   \<and> cos_sim_matrix [[0, 0]] [[1, 0]] ! 0 ! 0 = 0
   \<and> fused_sim_matrix (3 / 5) [[0, 0]] [[1, 0]] = Inr [[1 / 5]]
   \<and> fused_similarity [0, 0] [1, 0] (3 / 5) = Inr (1 / 5)"
  using zero_norm_cosine_guard [of 0 "[[0, 0]]" 0 "[[1, 0]]" "3 / 5"]
  by (simp add: sim_eval fused_similarity_def euclidean_distance_def)

lemma set_candidate_pairs:
  "set (candidate_pairs ts th ia ib M) =
     {mk_pair ia ib M (i, j) | i j.
        i < length ia \<and> j < length ib
        \<and> \<not> (ts \<and> i_type (ia ! i) \<noteq> i_type (ib ! j)) \<and> th \<le> M ! i ! j}"
proof -
  have "set (candidate_pairs ts th ia ib M) =
      mk_pair ia ib M ` {(i, j). i < length ia \<and> j < length ib
        \<and> \<not> (ts \<and> i_type (ia ! i) \<noteq> i_type (ib ! j)) \<and> th \<le> M ! i ! j}"
    unfolding candidate_pairs_indices set_map
    by (rule arg_cong[where f="\<lambda>S. mk_pair ia ib M ` S"]) (auto simp: set_emitted_indices)
  also have "\<dots> = {mk_pair ia ib M (i, j) | i j.
        i < length ia \<and> j < length ib
        \<and> \<not> (ts \<and> i_type (ia ! i) \<noteq> i_type (ib ! j)) \<and> th \<le> M ! i ! j}"
    by blast
  finally show ?thesis .
qed

text \<open>
  Claim C7. The threshold test is inclusive: an index pair whose fused score equals the
  threshold, and which the type test lets through, is in the returned pair list. With
  \<open>type_sensitive\<close> set, the two questions of every returned pair have the same type.
\<close>

theorem threshold_inclusive_type_filter:
  assumes "calculate_similarity fa pa fb pb th ts w dd = Inr r"
  shows "(\<forall>M i j. fused_sim_matrix w (paper_vectors pa) (paper_vectors pb) = Inr M
            \<and> i < length (paper_info pa) \<and> j < length (paper_info pb)
            \<and> M ! i ! j = th
            \<and> (ts \<longrightarrow> i_type (paper_info pa ! i) = i_type (paper_info pb ! j))
          \<longrightarrow> mk_pair (paper_info pa) (paper_info pb) M (i, j) \<in> set (r_similar_pairs r))
       \<and> (ts \<longrightarrow> (\<forall>p \<in> set (r_similar_pairs r). i_type (p_paper_a p) = i_type (p_paper_b p)))"
proof (intro conjI allI impI ballI)
  fix M i j
  assume h: "fused_sim_matrix w (paper_vectors pa) (paper_vectors pb) = Inr M
            \<and> i < length (paper_info pa) \<and> j < length (paper_info pb)
            \<and> M ! i ! j = th
            \<and> (ts \<longrightarrow> i_type (paper_info pa ! i) = i_type (paper_info pb ! j))"
  then have ne: "paper_vectors pa \<noteq> []" "paper_vectors pb \<noteq> []"
    using length_paper_info[of pa] length_paper_info[of pb] by auto
  from calculate_similarity_full[OF ne, of fa fb th ts w dd] assms h
  have "r_similar_pairs r = sort_reverse p_similarity
          (candidate_pairs ts th (paper_info pa) (paper_info pb) M)"
    by auto
  moreover have "mk_pair (paper_info pa) (paper_info pb) M (i, j)
      \<in> set (candidate_pairs ts th (paper_info pa) (paper_info pb) M)"
    unfolding set_candidate_pairs using h by blast
  ultimately show "mk_pair (paper_info pa) (paper_info pb) M (i, j) \<in> set (r_similar_pairs r)"
    by (simp add: set_sort_reverse)
next
  fix p
  assume ts: ts and p: "p \<in> set (r_similar_pairs r)"
  from calculate_similarity_pairs[OF assms] p obtain M where
    "r_similar_pairs r = sort_reverse p_similarity
          (candidate_pairs ts th (paper_info pa) (paper_info pb) M)"
    by auto
  with p have "p \<in> set (candidate_pairs ts th (paper_info pa) (paper_info pb) M)"
    by (simp add: set_sort_reverse)
  then show "i_type (p_paper_a p) = i_type (p_paper_b p)"
    unfolding set_candidate_pairs using ts by (auto simp: mk_pair_def)
qed


theorem threshold_inclusive_type_filter_witness:
  "calculate_similarity (py ''a.json'') (ex_paper [ex_question ''1'' ''MC'' (Some [1, 0])])
     (py ''b.json'') (ex_paper [ex_question ''1'' ''MC'' (Some [1, 0])]) 1 True (3 / 5) True
   = Inr (ex_result 1 True 1 1 (Some True)
        [\<lparr>p_paper_a = ex_info ''1'' ''MC'', p_paper_b = ex_info ''1'' ''MC'', p_similarity = 1\<rparr>])
   \<and> fused_sim_matrix (3 / 5) [[1, 0]] [[1, 0]] = Inr [[1]]
   \<and> mk_pair [ex_info ''1'' ''MC''] [ex_info ''1'' ''MC''] [[1]] (0, 0)
       \<in> set (r_similar_pairs (ex_result 1 True 1 1 (Some True)
        [\<lparr>p_paper_a = ex_info ''1'' ''MC'', p_paper_b = ex_info ''1'' ''MC'', p_similarity = 1\<rparr>]))"
proof -
  let ?A = "ex_paper [ex_question ''1'' ''MC'' (Some [1, 0])]"
  let ?R = "ex_result 1 True 1 1 (Some True)
        [\<lparr>p_paper_a = ex_info ''1'' ''MC'', p_paper_b = ex_info ''1'' ''MC'', p_similarity = 1\<rparr>]"
  have h: "calculate_similarity (py ''a.json'') ?A (py ''b.json'') ?A 1 True (3 / 5) True = Inr ?R"
    by (simp add: sim_eval ex_defs)
  have v: "paper_vectors ?A = [[1, 0]]" and i: "paper_info ?A = [ex_info ''1'' ''MC'']"
    by (simp_all add: paper_vectors_def paper_info_def ex_defs mk_info_def)
  have m: "fused_sim_matrix (3 / 5) [[1, 0]] [[1, 0]] = Inr [[1]]"
    by (simp add: sim_eval)
  from threshold_inclusive_type_filter[OF h] m
  have "mk_pair [ex_info ''1'' ''MC''] [ex_info ''1'' ''MC''] [[1]] (0, 0) \<in> set (r_similar_pairs ?R)"
    unfolding v i by simp
  with h m show ?thesis by blast
qed

lemma distinct_emitted_indices: "distinct (emitted_indices ts th ia ib M)"
  by (simp add: emitted_indices_def distinct_product)

lemma distinct_sort_reverse: "distinct (sort_reverse f xs) = distinct xs"
  by (simp add: sort_reverse_def)

text \<open>
  Claim C8. The returned pair list is in descending order of similarity, and it is the image of
  the emitted index pairs arranged so that a higher score comes first and equal scores keep the
  \<open>(i, j)\<close> order of the loops (\<open>i\<close> first, then \<open>j\<close>).
\<close>

theorem pairs_sorted_descending_stable:
  assumes "calculate_similarity fa pa fb pb th ts w dd = Inr r"
  shows "sorted_wrt (\<lambda>p q. p_similarity p \<ge> p_similarity q) (r_similar_pairs r)
       \<and> (r_similar_pairs r = [] \<or>
           (\<exists>M ixs. fused_sim_matrix w (paper_vectors pa) (paper_vectors pb) = Inr M
              \<and> r_similar_pairs r = map (mk_pair (paper_info pa) (paper_info pb) M) ixs
              \<and> distinct ixs
              \<and> set ixs = set (emitted_indices ts th (paper_info pa) (paper_info pb) M)
              \<and> sorted_wrt (ranks_before M) ixs))"
proof (cases "r_similar_pairs r = []")
  case True
  then show ?thesis by simp
next
  case False
  with calculate_similarity_pairs[OF assms] obtain M where
    M: "fused_sim_matrix w (paper_vectors pa) (paper_vectors pb) = Inr M" and
    r: "r_similar_pairs r = sort_reverse p_similarity
          (candidate_pairs ts th (paper_info pa) (paper_info pb) M)"
    by auto
  let ?mk = "mk_pair (paper_info pa) (paper_info pb) M"
  let ?em = "emitted_indices ts th (paper_info pa) (paper_info pb) M"
  let ?key = "\<lambda>ij. M ! fst ij ! snd ij"
  let ?lex = "\<lambda>ij kl. fst ij < fst kl \<or> (fst ij = fst kl \<and> snd ij < (snd kl :: nat))"
  define ixs where "ixs = sort_reverse ?key ?em"
  have key: "(\<lambda>x. p_similarity (?mk x)) = ?key"
    by (simp add: mk_pair_def)
  have out: "r_similar_pairs r = map ?mk ixs"
    unfolding r candidate_pairs_indices sort_reverse_map key ixs_def ..
  have desc: "sorted_wrt (\<lambda>a b. ?key a \<ge> ?key b) ixs"
    unfolding ixs_def by (rule sort_reverse_descending)
  have ties: "sorted_wrt ?lex (filter (\<lambda>y. ?key y = k) ixs)" for k
    unfolding ixs_def sort_reverse_stable
    by (rule sorted_wrt_filter) (rule emitted_indices_sorted)
  have "sorted_wrt (\<lambda>a b. ?key a > ?key b \<or> (?key a = ?key b \<and> ?lex a b)) ixs"
    by (rule stable_refines[OF desc ties])
  then have ranked: "sorted_wrt (ranks_before M) ixs"
    by (simp add: ranks_before_def[abs_def])
  have d: "distinct ixs"
    unfolding ixs_def by (simp add: distinct_sort_reverse distinct_emitted_indices)
  have s: "set ixs = set ?em"
    unfolding ixs_def by (rule set_sort_reverse)
  have "sorted_wrt (\<lambda>p q. p_similarity p \<ge> p_similarity q) (r_similar_pairs r)"
    unfolding r by (rule sort_reverse_descending)
  with M out d s ranked show ?thesis by blast
qed

theorem pairs_sorted_descending_stable_witness:
  "calculate_similarity (py ''a.json'')
       (ex_paper [ex_question ''1'' ''MC'' (Some [1, 0]), ex_question ''2'' ''MC'' (Some [1, 0])])
     (py ''b.json'')
       (ex_paper [ex_question ''3'' ''MC'' (Some [0, 0]), ex_question ''4'' ''MC'' (Some [1, 0])])
     0 True (3 / 5) True
   = Inr (ex_result 0 True 2 2 (Some True)
        [\<lparr>p_paper_a = ex_info ''1'' ''MC'', p_paper_b = ex_info ''4'' ''MC'', p_similarity = 1\<rparr>,
         \<lparr>p_paper_a = ex_info ''2'' ''MC'', p_paper_b = ex_info ''4'' ''MC'', p_similarity = 1\<rparr>,
         \<lparr>p_paper_a = ex_info ''1'' ''MC'', p_paper_b = ex_info ''3'' ''MC'', p_similarity = 1 / 5\<rparr>,
         \<lparr>p_paper_a = ex_info ''2'' ''MC'', p_paper_b = ex_info ''3'' ''MC'', p_similarity = 1 / 5\<rparr>])
   \<and> sorted_wrt (\<lambda>p q. p_similarity p \<ge> p_similarity q)
       (r_similar_pairs (ex_result 0 True 2 2 (Some True)
        [\<lparr>p_paper_a = ex_info ''1'' ''MC'', p_paper_b = ex_info ''4'' ''MC'', p_similarity = 1\<rparr>,
         \<lparr>p_paper_a = ex_info ''2'' ''MC'', p_paper_b = ex_info ''4'' ''MC'', p_similarity = 1\<rparr>,
         \<lparr>p_paper_a = ex_info ''1'' ''MC'', p_paper_b = ex_info ''3'' ''MC'', p_similarity = 1 / 5\<rparr>,
         \<lparr>p_paper_a = ex_info ''2'' ''MC'', p_paper_b = ex_info ''3'' ''MC'', p_similarity = 1 / 5\<rparr>]))"
proof -
  let ?A = "ex_paper [ex_question ''1'' ''MC'' (Some [1, 0]), ex_question ''2'' ''MC'' (Some [1, 0])]"
  let ?B = "ex_paper [ex_question ''3'' ''MC'' (Some [0, 0]), ex_question ''4'' ''MC'' (Some [1, 0])]"
  let ?R = "ex_result 0 True 2 2 (Some True)
        [\<lparr>p_paper_a = ex_info ''1'' ''MC'', p_paper_b = ex_info ''4'' ''MC'', p_similarity = 1\<rparr>,
         \<lparr>p_paper_a = ex_info ''2'' ''MC'', p_paper_b = ex_info ''4'' ''MC'', p_similarity = 1\<rparr>,
         \<lparr>p_paper_a = ex_info ''1'' ''MC'', p_paper_b = ex_info ''3'' ''MC'', p_similarity = 1 / 5\<rparr>,
         \<lparr>p_paper_a = ex_info ''2'' ''MC'', p_paper_b = ex_info ''3'' ''MC'', p_similarity = 1 / 5\<rparr>]"
  have h: "calculate_similarity (py ''a.json'') ?A (py ''b.json'') ?B 0 True (3 / 5) True = Inr ?R"
    by (simp add: sim_eval ex_defs)
  from pairs_sorted_descending_stable[OF h] h show ?thesis by blast
qed

text \<open>
  Claim C3. When one side has no question with a vector, the function returns a result with
  no pairs, with the counts of the questions that have a vector, and with the configuration
  fields; this early return has no \<^verbatim>\<open>"deduplicate"\<close> key, which the main return has.
\<close>

theorem empty_side_result:
  assumes "paper_vectors pa = [] \<or> paper_vectors pb = []"
  shows "\<exists>r. calculate_similarity fa pa fb pb th ts w dd = Inr r
           \<and> r_total_pairs r = 0 \<and> r_similar_pairs r = []
           \<and> r_total_questions_a r = length (filter (\<lambda>q. q_vector q \<noteq> None) (questions pa))
           \<and> r_total_questions_b r = length (filter (\<lambda>q. q_vector q \<noteq> None) (questions pb))
           \<and> r_paper_a r = fa \<and> r_paper_b r = fb \<and> r_method r = py ''fused''
           \<and> r_threshold r = th \<and> r_type_sensitive r = ts \<and> r_fusion_weight r = w
           \<and> r_deduplicate r = None"
  unfolding calculate_similarity_empty[OF assms] length_paper_vectors by simp

theorem empty_side_result_witness:
  "paper_vectors (ex_paper [ex_question ''1'' ''MC'' None]) = []
   \<and> calculate_similarity (py ''a.json'') (ex_paper [ex_question ''1'' ''MC'' None])
       (py ''b.json'') (ex_paper [ex_question ''2'' ''MC'' (Some [1, 0])]) (7 / 10) True (3 / 5) False
     = Inr (ex_result (7 / 10) True 0 1 None [])
   \<and> calculate_similarity (py ''a.json'') (ex_paper [ex_question ''1'' ''MC'' (Some [0, 0])])
       (py ''b.json'') (ex_paper [ex_question ''2'' ''MC'' (Some [1, 0])]) (7 / 10) True (3 / 5) False
     = Inr (ex_result (7 / 10) True 1 1 (Some False) [])"
  using empty_side_result [of "ex_paper [ex_question ''1'' ''MC'' None]"
      "ex_paper [ex_question ''2'' ''MC'' (Some [1, 0])]" "py ''a.json''" "py ''b.json''"
      "7 / 10" True "3 / 5" False]
  by (simp add: sim_eval ex_defs paper_vectors_def)

section \<open>Properties of segment\_text\<close>

subsection \<open>Coverage\<close>

lemma non_space_Nil [simp]: "non_space [] = []"
  by (simp add: non_space_def)

lemma non_space_Cons: "non_space (c # cs) = non_space [c] @ non_space cs"
  by (simp add: non_space_def)

lemma non_space_append: "non_space (a @ b) = non_space a @ non_space b"
  by (simp add: non_space_def)

lemma non_space_concat: "non_space (concat xs) = concat (map non_space xs)"
  by (induction xs) (simp_all add: non_space_def)

lemma non_space_dropWhile: "non_space (dropWhile is_space s) = non_space s"
  by (induction s) (simp_all add: non_space_def)

lemma non_space_rev: "non_space (rev s) = rev (non_space s)"
  by (simp add: non_space_def rev_filter)

lemma non_space_strip: "non_space (strip s) = non_space s"
  by (simp add: strip_def non_space_rev non_space_dropWhile)

lemma split_on_nonempty: "split_on sep s \<noteq> []"
  by (induction s) (auto split: list.splits)

lemma non_space_split_on: "is_space sep \<Longrightarrow> non_space (concat (split_on sep s)) = non_space s"
proof (induction s)
  case Nil
  show ?case by (simp add: non_space_def)
next
  case (Cons c cs)
  then show ?case
    by (cases "split_on sep cs") (auto simp: non_space_def split_on_nonempty)
qed

lemma is_space_newline: "is_space 10"
  by (simp add: is_space_def)

lemma non_space_empty_iff: "strip p = [] \<Longrightarrow> non_space p = []"
  using non_space_strip[of p] by (simp add: non_space_def)

lemma non_space_paragraphs: "non_space (concat (paragraphs text)) = non_space text"
proof -
  have "concat (map non_space (map strip (filter (\<lambda>p. strip p \<noteq> []) ps)))
      = concat (map non_space ps)" for ps
    by (induction ps) (auto simp: non_space_strip non_space_empty_iff)
  then have "non_space (concat (paragraphs text)) = non_space (concat (split_on 10 text))"
    by (simp add: paragraphs_def non_space_concat)
  then show ?thesis by (simp add: non_space_split_on is_space_newline)
qed

lemma non_space_split_ws_from:
  "non_space (concat (split_ws_from cur s)) = non_space cur @ non_space s"
  by (induction s arbitrary: cur) (auto simp: non_space_def)

lemma non_space_join_space: "non_space (join_space ws) = non_space (concat ws)"
  by (induction ws rule: join_space.induct) (auto simp: non_space_def is_space_def)

lemma non_space_pack_words:
  "non_space (concat (pack_words m frag len ws)) = non_space (concat frag) @ non_space (concat ws)"
  by (induction ws arbitrary: frag len) (auto simp: non_space_append non_space_join_space)

lemma non_space_punct_scan:
  "non_space (concat (punct_scan m cur cs)) = non_space cur @ non_space cs"
  by (induction cs arbitrary: cur)
     (auto simp: non_space_append non_space_strip non_space_Cons[symmetric])

lemma non_space_segment_chunk: "non_space (concat (segment_chunk m seg)) = non_space seg"
  by (simp add: segment_chunk_def non_space_pack_words split_ws_def non_space_split_ws_from)

lemma non_space_concat_map:
  "(\<And>x. non_space (concat (f x)) = non_space x) \<Longrightarrow>
     non_space (concat (concat (map f xs))) = non_space (concat xs)"
  by (induction xs) (simp_all add: non_space_append)

lemma non_space_segment_paragraph:
  "non_space (concat (segment_paragraph m para)) = non_space para"
proof (cases "int (length para) \<le> m")
  case True
  then show ?thesis by (simp add: segment_paragraph_def)
next
  case False
  have "non_space (concat (concat (map (segment_chunk m) (punct_scan m [] para))))
      = non_space (concat (punct_scan m [] para))"
    by (rule non_space_concat_map) (rule non_space_segment_chunk)
  with False show ?thesis
    by (simp add: segment_paragraph_def non_space_punct_scan)
qed

lemma segment_text_coverage: "non_space (concat (segment_text text m)) = non_space text"
proof -
  have "non_space (concat (concat (map (segment_paragraph m) (paragraphs text))))
      = non_space (concat (paragraphs text))"
    by (rule non_space_concat_map) (rule non_space_segment_paragraph)
  then show ?thesis by (simp add: segment_text_def non_space_paragraphs)
qed

subsection \<open>Length bound\<close>

lemma sublist_trans: "sublist a b \<Longrightarrow> sublist b c \<Longrightarrow> sublist a c"
  by (rule sublist_order.order.trans)

lemma sublist_strip: "sublist (strip s) s"
proof -
  have "sublist (rev (dropWhile is_space (rev (dropWhile is_space s)))) (dropWhile is_space s)"
    by (simp add: sublist_rev_left)
  then show ?thesis
    unfolding strip_def by (rule sublist_trans) simp
qed

lemma split_on_head_prefix: "split_on sep s = w # ws \<Longrightarrow> prefix w s"
  by (induction s arbitrary: w ws) (auto split: if_splits list.splits)

lemma sublist_split_on: "p \<in> set (split_on sep s) \<Longrightarrow> sublist p s"
proof (induction s arbitrary: p)
  case Nil
  then show ?case by simp
next
  case (Cons c cs)
  obtain w ws where sp: "split_on sep cs = w # ws"
    using split_on_nonempty[of sep cs] by (cases "split_on sep cs") auto
  show ?case
  proof (cases "c = sep")
    case True
    with Cons.prems have "p = [] \<or> p \<in> set (split_on sep cs)" by auto
    then show ?thesis
      using Cons.IH by (auto simp: sublist_Cons_right)
  next
    case False
    with sp Cons.prems have "p = c # w \<or> p \<in> set ws" by auto
    then show ?thesis
    proof
      assume p: "p = c # w"
      have "prefix w cs" by (rule split_on_head_prefix[OF sp])
      then show ?thesis using p by (simp add: sublist_Cons_right)
    next
      assume "p \<in> set ws"
      then have "sublist p cs" using Cons.IH sp by simp
      then show ?thesis by (simp add: sublist_Cons_right)
    qed
  qed
qed

lemma sublist_paragraphs: "p \<in> set (paragraphs text) \<Longrightarrow> sublist p text"
  by (auto simp: paragraphs_def intro: sublist_trans[OF sublist_strip sublist_split_on])

lemma spaceless_Nil [simp]: "spaceless []"
  by (simp add: spaceless_def)

lemma spaceless_snoc: "spaceless (s @ [c]) \<longleftrightarrow> spaceless s \<and> \<not> is_space c"
  by (auto simp: spaceless_def)

lemma split_ws_from_words:
  "spaceless cur \<Longrightarrow> w \<in> set (split_ws_from cur cs) \<Longrightarrow>
     spaceless w \<and> w \<noteq> [] \<and> sublist w (cur @ cs)"
proof (induction cs arbitrary: cur)
  case Nil
  then show ?case by (auto split: if_splits)
next
  case (Cons c cs)
  show ?case
  proof (cases "is_space c")
    case True
    with Cons.prems(2) have "(cur \<noteq> [] \<and> w = cur) \<or> w \<in> set (split_ws_from [] cs)"
      by (auto split: if_splits)
    then show ?thesis
    proof
      assume "cur \<noteq> [] \<and> w = cur"
      with Cons.prems(1) show ?thesis by simp
    next
      assume "w \<in> set (split_ws_from [] cs)"
      from Cons.IH[OF spaceless_Nil this]
      have "spaceless w" "w \<noteq> []" "sublist w cs" by simp_all
      moreover have "sublist cs (cur @ c # cs)"
        using sublist_append_leftI[of cs "cur @ [c]"] by simp
      ultimately show ?thesis by (blast intro: sublist_trans)
    qed
  next
    case False
    with Cons.prems have "spaceless (cur @ [c])" "w \<in> set (split_ws_from (cur @ [c]) cs)"
      by (simp_all add: spaceless_snoc)
    from Cons.IH[OF this] show ?thesis by simp
  qed
qed

lemma split_ws_words:
  "w \<in> set (split_ws s) \<Longrightarrow> spaceless w \<and> w \<noteq> [] \<and> sublist w s"
  using split_ws_from_words[of "[]" w s] by (simp add: split_ws_def)

lemma length_join_space_snoc:
  "frag \<noteq> [] \<Longrightarrow> length (join_space (frag @ [w])) = length (join_space frag) + 1 + length w"
  by (induction frag rule: join_space.induct) auto

lemma join_space_bound:
  assumes "frag \<noteq> []"
      and "len = int (length (join_space frag)) + 1"
      and "2 \<le> length frag \<longrightarrow> len \<le> m"
  shows "int (length (join_space frag)) \<le> m \<or> join_space frag \<in> set frag"
proof (cases "2 \<le> length frag")
  case True
  with assms show ?thesis by simp
next
  case False
  with assms(1) obtain w where "frag = [w]"
    by (cases frag) (auto simp: Suc_le_eq)
  then show ?thesis by simp
qed

lemma pack_words_bound:
  assumes "(frag = [] \<and> len = 0) \<or>
           (frag \<noteq> [] \<and> len = int (length (join_space frag)) + 1
            \<and> (2 \<le> length frag \<longrightarrow> len \<le> m))"
      and "s \<in> set (pack_words m frag len ws)"
  shows "int (length s) \<le> m \<or> s \<in> set frag \<union> set ws"
  using assms
proof (induction ws arbitrary: frag len)
  case Nil
  then show ?case
    using join_space_bound[of frag len m] by (auto split: if_splits)
next
  case (Cons w ws)
  show ?case
  proof (cases "len + int (length w) + 1 > m \<and> frag \<noteq> []")
    case True
    with Cons.prems(2) have
      "s = join_space frag \<or> s \<in> set (pack_words m [w] (int (length w) + 1) ws)"
      by auto
    then show ?thesis
    proof
      assume "s = join_space frag"
      with True Cons.prems(1) join_space_bound[of frag len m] show ?thesis by auto
    next
      assume "s \<in> set (pack_words m [w] (int (length w) + 1) ws)"
      from Cons.IH[OF _ this] show ?thesis by auto
    qed
  next
    case False
    with Cons.prems(2) have
      s: "s \<in> set (pack_words m (frag @ [w]) (len + int (length w) + 1) ws)"
      by auto
    have inv: "(frag @ [w] = [] \<and> len + int (length w) + 1 = 0) \<or>
           (frag @ [w] \<noteq> []
            \<and> len + int (length w) + 1 = int (length (join_space (frag @ [w]))) + 1
            \<and> (2 \<le> length (frag @ [w]) \<longrightarrow> len + int (length w) + 1 \<le> m))"
    proof (cases "frag = []")
      case True
      with Cons.prems(1) show ?thesis by simp
    next
      case ne: False
      with Cons.prems(1) False show ?thesis
        by (simp add: length_join_space_snoc)
    qed
    from Cons.IH[OF inv s] show ?thesis by auto
  qed
qed

lemma segment_chunk_bound:
  assumes "s \<in> set (segment_chunk m seg)"
  shows "int (length s) \<le> m \<or> (spaceless s \<and> s \<noteq> [] \<and> sublist s seg)"
proof (cases "int (length seg) \<le> m")
  case True
  with assms show ?thesis by (simp add: segment_chunk_def)
next
  case False
  with assms have "s \<in> set (pack_words m [] 0 (split_ws seg))"
    by (simp add: segment_chunk_def)
  from pack_words_bound[OF _ this] have "int (length s) \<le> m \<or> s \<in> set (split_ws seg)"
    by simp
  then show ?thesis using split_ws_words by blast
qed

lemma sublist_punct_scan: "x \<in> set (punct_scan m cur cs) \<Longrightarrow> sublist x (cur @ cs)"
proof (induction cs arbitrary: cur)
  case Nil
  then show ?case by (auto split: if_splits intro: sublist_strip)
next
  case (Cons c cs)
  show ?case
  proof (cases "is_terminal c \<and> 3 * m \<le> 10 * int (length (cur @ [c]))")
    case True
    with Cons.prems have "x = strip (cur @ [c]) \<or> x \<in> set (punct_scan m [] cs)"
      by auto
    then show ?thesis
    proof
      assume "x = strip (cur @ [c])"
      then have "sublist x (cur @ [c])" by (simp add: sublist_strip)
      moreover have "sublist (cur @ [c]) (cur @ c # cs)"
        using sublist_append_rightI[of "cur @ [c]" cs] by simp
      ultimately show ?thesis by (rule sublist_trans)
    next
      assume "x \<in> set (punct_scan m [] cs)"
      from Cons.IH[OF this] have "sublist x cs" by simp
      moreover have "sublist cs (cur @ c # cs)"
        using sublist_append_leftI[of cs "cur @ [c]"] by simp
      ultimately show ?thesis by (rule sublist_trans)
    qed
  next
    case False
    with Cons.prems have "x \<in> set (punct_scan m (cur @ [c]) cs)" by auto
    from Cons.IH[OF this] show ?thesis by simp
  qed
qed

lemma segment_paragraph_bound:
  assumes "s \<in> set (segment_paragraph m para)"
  shows "int (length s) \<le> m \<or> (spaceless s \<and> s \<noteq> [] \<and> sublist s para)"
proof (cases "int (length para) \<le> m")
  case True
  with assms show ?thesis by (simp add: segment_paragraph_def)
next
  case False
  with assms obtain seg where seg: "seg \<in> set (punct_scan m [] para)"
    and s: "s \<in> set (segment_chunk m seg)"
    by (auto simp: segment_paragraph_def)
  from sublist_punct_scan[OF seg] have "sublist seg para" by simp
  with segment_chunk_bound[OF s] show ?thesis by (blast intro: sublist_trans)
qed

lemma segment_text_bound:
  assumes "s \<in> set (segment_text text m)"
  shows "int (length s) \<le> m \<or> (spaceless s \<and> s \<noteq> [] \<and> sublist s text)"
proof -
  from assms obtain para where para: "para \<in> set (paragraphs text)"
    and s: "s \<in> set (segment_paragraph m para)"
    by (auto simp: segment_text_def)
  from segment_paragraph_bound[OF s] sublist_paragraphs[OF para]
  show ?thesis by (blast intro: sublist_trans)
qed

subsection \<open>Tokens\<close>

lemma sublist_across_separator:
  assumes "sublist s (xs @ c # ys)" and "c \<notin> set s"
  shows "sublist s xs \<or> sublist s ys"
proof -
  from assms(1) consider "sublist s xs" | "sublist s (c # ys)"
    | s1 s2 where "s = s1 @ s2" "suffix s1 xs" "prefix s2 (c # ys)"
    unfolding sublist_append by blast
  then show ?thesis
  proof cases
    case 1
    then show ?thesis by simp
  next
    case 2
    then have "prefix s (c # ys) \<or> sublist s ys" by (simp add: sublist_Cons_right)
    then show ?thesis
    proof
      assume "prefix s (c # ys)"
      with assms(2) have "s = []" by (cases s) auto
      then show ?thesis by simp
    qed simp
  next
    case 3
    from 3(3) assms(2) 3(1) have "s2 = []" by (cases s2) auto
    with 3 show ?thesis by auto
  qed
qed

lemma token_covers_run_from:
  assumes "s \<noteq> []" and "spaceless s" and "sublist s (cur @ cs)"
  shows "\<exists>w \<in> set (split_ws_from cur cs). sublist s w"
  using assms(3)
proof (induction cs arbitrary: cur)
  case Nil
  with assms(1) have "cur \<noteq> []" by auto
  with Nil show ?case by simp
next
  case (Cons c cs)
  show ?case
  proof (cases "is_space c")
    case True
    with assms(2) have "c \<notin> set s" by (auto simp: spaceless_def)
    from sublist_across_separator[OF Cons.prems this]
    show ?thesis
    proof
      assume a: "sublist s cur"
      with assms(1) have "cur \<noteq> []" by auto
      with a True show ?thesis by simp
    next
      assume "sublist s cs"
      then have "sublist s ([] @ cs)" by simp
      from Cons.IH[OF this] True show ?thesis by auto
    qed
  next
    case False
    from Cons.prems have "sublist s ((cur @ [c]) @ cs)" by simp
    from Cons.IH[OF this] False show ?thesis by simp
  qed
qed

lemma token_covers_run:
  "s \<noteq> [] \<Longrightarrow> spaceless s \<Longrightarrow> sublist s text \<Longrightarrow> \<exists>w \<in> set (split_ws text). sublist s w"
  using token_covers_run_from[of s "[]" "text"] by (simp add: split_ws_def)

text \<open>
  Claim C5. The segments of \<^verbatim>\<open>segment_text\<close>, concatenated and with whitespace removed, are
  the input with whitespace removed. A segment longer than \<open>max_length\<close> is a single run of
  characters without whitespace taken from the input; so no segment is longer than
  \<open>max_length\<close> when no whitespace-delimited token of the input is.
\<close>

theorem segment_text_covers_and_bounds:
  "non_space (concat (segment_text text max_length)) = non_space text
   \<and> (\<forall>s \<in> set (segment_text text max_length).
         int (length s) \<le> max_length \<or> (spaceless s \<and> s \<noteq> [] \<and> sublist s text))
   \<and> ((\<forall>w \<in> set (split_ws text). int (length w) \<le> max_length) \<longrightarrow>
        (\<forall>s \<in> set (segment_text text max_length). int (length s) \<le> max_length))"
proof (intro conjI ballI impI)
  show "non_space (concat (segment_text text max_length)) = non_space text"
    by (rule segment_text_coverage)
next
  fix s assume "s \<in> set (segment_text text max_length)"
  then show "int (length s) \<le> max_length \<or> (spaceless s \<and> s \<noteq> [] \<and> sublist s text)"
    by (rule segment_text_bound)
next
  fix s
  assume tok: "\<forall>w \<in> set (split_ws text). int (length w) \<le> max_length"
    and s: "s \<in> set (segment_text text max_length)"
  show "int (length s) \<le> max_length"
  proof (rule ccontr)
    assume long: "\<not> int (length s) \<le> max_length"
    with segment_text_bound[OF s] have "s \<noteq> []" "spaceless s" "sublist s text" by auto
    from token_covers_run[OF this] obtain w where
      w: "w \<in> set (split_ws text)" and sw: "sublist s w" by blast
    from sublist_length_le[OF sw] tok w long show False by fastforce
  qed
qed


lemma py_simps: "py [] = []" "py (c # cs) = of_char c # py cs"
  by (simp_all add: py_def)

lemmas seg_eval = segment_text_def paragraphs_def segment_paragraph_def segment_chunk_def
  strip_def split_ws_def py_simps is_space_def is_terminal_def non_space_def

theorem segment_text_covers_and_bounds_witness:
  "segment_text (py ''ab cd ef gh'') 5 = [py ''ab'', py ''cd'', py ''ef'', py ''gh'']
   \<and> list_all (\<lambda>w. int (length w) \<le> 5) (split_ws (py ''ab cd ef gh''))
   \<and> non_space (concat (segment_text (py ''ab cd ef gh'') 5)) = py ''abcdefgh''
   \<and> list_all (\<lambda>s. int (length s) \<le> 5) (segment_text (py ''ab cd ef gh'') 5)
   \<and> segment_text (py ''abcdefgh ij'') 5 = [py ''abcdefgh'', py ''ij'']"
proof -
  have e: "segment_text (py ''ab cd ef gh'') 5 = [py ''ab'', py ''cd'', py ''ef'', py ''gh'']"
    by (simp add: seg_eval)
  have e2: "segment_text (py ''abcdefgh ij'') 5 = [py ''abcdefgh'', py ''ij'']"
    by (simp add: seg_eval)
  have h: "list_all (\<lambda>w. int (length w) \<le> 5) (split_ws (py ''ab cd ef gh''))"
    by (simp add: seg_eval)
  have n: "non_space (py ''ab cd ef gh'') = py ''abcdefgh''"
    by (simp add: seg_eval)
  from segment_text_covers_and_bounds[of "py ''ab cd ef gh''" 5] h e e2 n
  show ?thesis by (simp add: list_all_iff)
qed

section \<open>Properties of clean\_html\<close>

subsection \<open>The scan for math spans\<close>











subsection \<open>The placeholders\<close>










subsection \<open>Text that is no placeholder\<close>

















subsection \<open>The outcome with the limit of int\<close>

































section \<open>Properties of clean\_paper\_data\<close>










end
